theory Spec2Isabelle
  imports Main "HOL-Library.Char_ord" "HOL-Library.List_Lexorder" "HOL-Library.Product_Lexorder"
begin

section \<open>Data model\<close>

text \<open>
  Modelled from the spec: the declaration of \<open>PackingListItem\<close> lives in \<open>./types\<close>, which
  is not among the sources. The spec (sections 3 and 6) gives one record per parsed line with
  the columns \<open>Suppliername\<close>, \<open>deliverdate\<close>, \<open>customer\<close>, \<open>DeviceName\<close>, \<open>Numbers\<close> and
  \<open>ModelNum\<close>; the quantity is an integer, and the delivery date is a calendar date that may be
  absent or unparseable. A date is taken as its day number, so that chronological order is
  the order of \<open>int\<close>, and \<open>None\<close> is the absent date.
\<close>

type_synonym date = int

record PackingListItem =
  Suppliername :: string
  deliverdate :: "date option"
  customer :: string
  DeviceName :: string
  Numbers :: int
  ModelNum :: string

text \<open>
  The objects pushed by \<open>renderForceGraph\<close> (App.tsx, lines 228 to 233): a node
  \<open>{ id, group, label }\<close> and a link \<open>{ source, target, value }\<close>. The group is the string
  literal the source writes. The field \<open>id\<close> is \<open>node_id\<close> here and the field \<open>value\<close> is
  \<open>link_value\<close>, since \<open>id\<close> and \<open>value\<close> are taken in Isabelle.
\<close>

record GraphNode =
  node_id :: string
  group :: string
  label :: string

record GraphLink =
  source :: string
  target :: string
  link_value :: int

text \<open>
  The three locals the loop mutates: the arrays \<open>nodes\<close> and \<open>links\<close> and the set
  \<open>nodeSet\<close> of the ids already pushed.
\<close>

record loop_state =
  nodes :: "GraphNode list"
  links :: "GraphLink list"
  nodeSet :: "string set"

text \<open>
  What \<open>renderForceGraph\<close> returns when it returns an element:
  \<open><GraphComponent nodes={nodes} links={links} theme={theme} />\<close>. The theme is handed
  through untouched, so its type is left open.
\<close>

datatype 'th element =
  GraphComponent (props_nodes: "GraphNode list") (props_links: "GraphLink list") (props_theme: 'th)

section \<open>The graph derivation of renderForceGraph\<close>

text \<open>The template literals of lines 224 to 226 (the locals \<open>sup\<close>, \<open>dev\<close> and \<open>cust\<close>).\<close>

definition sup_id :: "PackingListItem \<Rightarrow> string" where
  "sup_id d = ''SUP:'' @ Suppliername d"

definition dev_id :: "PackingListItem \<Rightarrow> string" where
  "dev_id d = ''DEV:'' @ DeviceName d"

definition cust_id :: "PackingListItem \<Rightarrow> string" where
  "cust_id d = ''CUST:'' @ customer d"

text \<open>
  The body of \<open>graphData.forEach(d => ...)\<close>, lines 223 to 234: three guarded pushes of a
  node, each followed by the insertion of its id into \<open>nodeSet\<close>, then two unguarded pushes
  of a link.
\<close>

definition forEach_body :: "loop_state \<Rightarrow> PackingListItem \<Rightarrow> loop_state" where
  "forEach_body s d =
    (let s1 = (if sup_id d \<notin> nodeSet s
               then s\<lparr>nodes := nodes s @ [\<lparr>node_id = sup_id d, group = ''supplier'', label = Suppliername d\<rparr>],
                      nodeSet := insert (sup_id d) (nodeSet s)\<rparr>
               else s);
         s2 = (if dev_id d \<notin> nodeSet s1
               then s1\<lparr>nodes := nodes s1 @ [\<lparr>node_id = dev_id d, group = ''device'', label = DeviceName d\<rparr>],
                       nodeSet := insert (dev_id d) (nodeSet s1)\<rparr>
               else s1);
         s3 = (if cust_id d \<notin> nodeSet s2
               then s2\<lparr>nodes := nodes s2 @ [\<lparr>node_id = cust_id d, group = ''customer'', label = customer d\<rparr>],
                       nodeSet := insert (cust_id d) (nodeSet s2)\<rparr>
               else s2);
         s4 = s3\<lparr>links := links s3 @ [\<lparr>source = sup_id d, target = dev_id d, link_value = 1\<rparr>]\<rparr>
     in s4\<lparr>links := links s4 @ [\<lparr>source = dev_id d, target = cust_id d, link_value = Numbers d\<rparr>]\<rparr>)"

text \<open>
  \<open>renderForceGraph\<close>, lines 215 to 237, as a function of the two values it closes over.
  \<open>null\<close> is \<open>None\<close>; \<open>filteredData.slice(0, 100)\<close> is \<open>take 100\<close>; \<open>forEach\<close> visits the
  slice from left to right.
\<close>

definition renderForceGraph :: "'th \<Rightarrow> PackingListItem list \<Rightarrow> 'th element option" where
  "renderForceGraph theme filteredData =
    (if length filteredData = 0 then None
     else
       (let graphData = take 100 filteredData;
            s = foldl forEach_body \<lparr>nodes = [], links = [], nodeSet = {}\<rparr> graphData
        in Some (GraphComponent (nodes s) (links s) theme)))"

section \<open>The filter and aggregation engines\<close>

text \<open>
  Modelled from the spec: the type \<open>DataFilters\<close> of \<open>./types\<close> is not among the sources.
  The spec (section 3) gives the criteria as a supplier and a device, each a text or the
  wildcard written as the empty value, and two date bounds, each a date or unbounded. The
  initial criteria of App.tsx (line 26) are the four empty values; an unset date bound is
  \<open>None\<close> here.
\<close>

record DataFilters =
  supplier :: string
  device :: string
  startDate :: "date option"
  endDate :: "date option"

text \<open>
  Modelled from the spec: \<open>filterData\<close> of \<open>./services/dataService\<close> is not among the
  sources. Section 4.2: supplier and device are exact matches, with the empty criterion
  matching everything; a record passes the date range when its date lies within the
  inclusive bounds, either of which may be unset; a record without a date is excluded as
  soon as one bound is set and included when both are unset; the four criteria are anded and
  the records that pass keep their relative order.
\<close>

definition matches :: "DataFilters \<Rightarrow> PackingListItem \<Rightarrow> bool" where
  "matches filters r =
    ((if supplier filters = '''' then True else Suppliername r = supplier filters) \<and>
     (if device filters = '''' then True else DeviceName r = device filters) \<and>
     (if startDate filters = None \<and> endDate filters = None then True
      else (case deliverdate r of
              None \<Rightarrow> False
            | Some d \<Rightarrow>
                (case startDate filters of None \<Rightarrow> True | Some lo \<Rightarrow> lo \<le> d) \<and>
                (case endDate filters of None \<Rightarrow> True | Some hi \<Rightarrow> d \<le> hi))))"

definition filterData :: "PackingListItem list \<Rightarrow> DataFilters \<Rightarrow> PackingListItem list" where
  "filterData data filters = filter (matches filters) data"

text \<open>
  Modelled from the spec: the result type of \<open>aggregateData\<close> is not among the sources.
  Section 3 lists its fields; an entry of the time series is \<open>{date, value}\<close> and an entry of
  the device ranking is \<open>{name, value}\<close>.
\<close>

record SeriesPoint =
  ts_date :: date
  ts_value :: int

record DeviceTotal =
  td_name :: string
  td_value :: int

record AggregateResult =
  totalLines :: nat
  totalUnits :: int
  uniqueSuppliers :: nat
  uniqueCustomers :: nat
  timeSeries :: "SeriesPoint list"
  topDevices :: "DeviceTotal list"

text \<open>The sum of the quantities of the records that satisfy \<open>P\<close>.\<close>

definition units_where :: "(PackingListItem \<Rightarrow> bool) \<Rightarrow> PackingListItem list \<Rightarrow> int" where
  "units_where P rs = sum_list (map Numbers (filter P rs))"

text \<open>The number of distinct non-empty values of a column.\<close>

definition count_distinct :: "string list \<Rightarrow> nat" where
  "count_distinct vs = length (remdups (filter (\<lambda>v. v \<noteq> '''') vs))"

text \<open>
  The ranking order of the devices: descending by sum, ties by name ascending, which is
  the lexicographic order of the pair of the negated sum and the name.
\<close>

definition rank_key :: "DeviceTotal \<Rightarrow> int \<times> string" where
  "rank_key e = (- td_value e, td_name e)"

text \<open>
  Modelled from the spec: \<open>aggregateData\<close> of \<open>./services/dataService\<close> is not among the
  sources. Sections 3 and 4.3: the count of the records, the sum of their quantities, the
  counts of the distinct non-empty suppliers and customers, one entry per distinct date
  present in ascending chronological order with the sum of that date (records lacking a
  date are left out), and the sums per distinct device name sorted descending, ties by name
  ascending, cut to the first ten.
\<close>

definition aggregateData :: "PackingListItem list \<Rightarrow> AggregateResult" where
  "aggregateData rs =
    \<lparr>totalLines = length rs,
     totalUnits = sum_list (map Numbers rs),
     uniqueSuppliers = count_distinct (map Suppliername rs),
     uniqueCustomers = count_distinct (map customer rs),
     timeSeries =
       map (\<lambda>d. \<lparr>ts_date = d, ts_value = units_where (\<lambda>r. deliverdate r = Some d) rs\<rparr>)
         (sort (remdups (List.map_filter deliverdate rs))),
     topDevices =
       take 10 (sort_key rank_key
         (map (\<lambda>n. \<lparr>td_name = n, td_value = units_where (\<lambda>r. DeviceName r = n) rs\<rparr>)
            (remdups (map DeviceName rs))))\<rparr>"

section \<open>Notions used to state the properties\<close>

text \<open>
  The elements of a list in the order of their first occurrence, each once
  (\<open>remdups\<close> keeps the last occurrence, hence the two reversals).
\<close>

definition first_seen :: "'a list \<Rightarrow> 'a list" where
  "first_seen xs = rev (remdups (rev xs))"

text \<open>
  The three nodes one record refers to, in the order in which the loop body tests them, and
  the two links it pushes.
\<close>

definition record_nodes :: "PackingListItem \<Rightarrow> GraphNode list" where
  "record_nodes d =
    [\<lparr>node_id = ''SUP:'' @ Suppliername d, group = ''supplier'', label = Suppliername d\<rparr>,
     \<lparr>node_id = ''DEV:'' @ DeviceName d, group = ''device'', label = DeviceName d\<rparr>,
     \<lparr>node_id = ''CUST:'' @ customer d, group = ''customer'', label = customer d\<rparr>]"

definition record_links :: "PackingListItem \<Rightarrow> GraphLink list" where
  "record_links d =
    [\<lparr>source = ''SUP:'' @ Suppliername d, target = ''DEV:'' @ DeviceName d, link_value = 1\<rparr>,
     \<lparr>source = ''DEV:'' @ DeviceName d, target = ''CUST:'' @ customer d, link_value = Numbers d\<rparr>]"

text \<open>The sums per distinct device name, before they are ranked and cut.\<close>

definition device_totals :: "PackingListItem list \<Rightarrow> DeviceTotal list" where
  "device_totals rs =
    map (\<lambda>n. \<lparr>td_name = n, td_value = units_where (\<lambda>r. DeviceName r = n) rs\<rparr>)
      (remdups (map DeviceName rs))"

text \<open>Appending to a list unless the element is in it; the guarded push of the loop body.\<close>

definition push_new :: "'a list \<Rightarrow> 'a \<Rightarrow> 'a list" where
  "push_new xs x = (if x \<in> set xs then xs else xs @ [x])"

definition push_node :: "loop_state \<Rightarrow> GraphNode \<Rightarrow> loop_state" where
  "push_node s n =
    (if node_id n \<notin> nodeSet s
     then s\<lparr>nodes := nodes s @ [n], nodeSet := insert (node_id n) (nodeSet s)\<rparr>
     else s)"

text \<open>
  The loop invariant: \<open>nodeSet\<close> holds exactly the ids of the nodes pushed so far, and the
  id of every node is the tag of its group followed by its label.
\<close>

definition tagged :: "GraphNode \<Rightarrow> bool" where
  "tagged n \<longleftrightarrow>
     group n = ''supplier'' \<and> node_id n = ''SUP:'' @ label n
   \<or> group n = ''device'' \<and> node_id n = ''DEV:'' @ label n
   \<or> group n = ''customer'' \<and> node_id n = ''CUST:'' @ label n"

definition wf_state :: "loop_state \<Rightarrow> bool" where
  "wf_state s \<longleftrightarrow> nodeSet s = node_id ` set (nodes s) \<and> list_all tagged (nodes s)"

text \<open>A record with the given supplier, device, customer and quantity, for the examples.\<close>

abbreviation item :: "string \<Rightarrow> string \<Rightarrow> string \<Rightarrow> int \<Rightarrow> PackingListItem" where
  "item s dv c q \<equiv>
    \<lparr>Suppliername = s, deliverdate = None, customer = c, DeviceName = dv, Numbers = q, ModelNum = ''''\<rparr>"


abbreviation rows_shared :: "PackingListItem list" where
  "rows_shared \<equiv> [item ''Acme'' ''X'' ''Acme'' 1, item ''Acme'' ''X'' ''C2'' 2]"

abbreviation graph_shared :: "unit element" where
  "graph_shared \<equiv>
    GraphComponent
      [\<lparr>node_id = ''SUP:Acme'', group = ''supplier'', label = ''Acme''\<rparr>,
       \<lparr>node_id = ''DEV:X'', group = ''device'', label = ''X''\<rparr>,
       \<lparr>node_id = ''CUST:Acme'', group = ''customer'', label = ''Acme''\<rparr>,
       \<lparr>node_id = ''CUST:C2'', group = ''customer'', label = ''C2''\<rparr>]
      [\<lparr>source = ''SUP:Acme'', target = ''DEV:X'', link_value = 1\<rparr>,
       \<lparr>source = ''DEV:X'', target = ''CUST:Acme'', link_value = 1\<rparr>,
       \<lparr>source = ''SUP:Acme'', target = ''DEV:X'', link_value = 1\<rparr>,
       \<lparr>source = ''DEV:X'', target = ''CUST:C2'', link_value = 2\<rparr>] ()"

abbreviation rows_order :: "PackingListItem list" where
  "rows_order \<equiv> [item ''B'' ''X'' ''C1'' 1, item ''A'' ''X'' ''C1'' 2, item ''B'' ''Y'' ''C0'' 3]"

abbreviation graph_order :: "unit element" where
  "graph_order \<equiv>
    GraphComponent
      [\<lparr>node_id = ''SUP:B'', group = ''supplier'', label = ''B''\<rparr>,
       \<lparr>node_id = ''DEV:X'', group = ''device'', label = ''X''\<rparr>,
       \<lparr>node_id = ''CUST:C1'', group = ''customer'', label = ''C1''\<rparr>,
       \<lparr>node_id = ''SUP:A'', group = ''supplier'', label = ''A''\<rparr>,
       \<lparr>node_id = ''DEV:Y'', group = ''device'', label = ''Y''\<rparr>,
       \<lparr>node_id = ''CUST:C0'', group = ''customer'', label = ''C0''\<rparr>]
      [\<lparr>source = ''SUP:B'', target = ''DEV:X'', link_value = 1\<rparr>,
       \<lparr>source = ''DEV:X'', target = ''CUST:C1'', link_value = 1\<rparr>,
       \<lparr>source = ''SUP:A'', target = ''DEV:X'', link_value = 1\<rparr>,
       \<lparr>source = ''DEV:X'', target = ''CUST:C1'', link_value = 2\<rparr>,
       \<lparr>source = ''SUP:B'', target = ''DEV:Y'', link_value = 1\<rparr>,
       \<lparr>source = ''DEV:Y'', target = ''CUST:C0'', link_value = 3\<rparr>] ()"

text \<open>A collection of 101 records whose last record has values of its own.\<close>

abbreviation rows_capped :: "PackingListItem list" where
  "rows_capped \<equiv> replicate 100 (item ''A'' ''X'' ''C1'' 1) @ [item ''B'' ''Y'' ''C2'' 2]"

text \<open>A collection with twelve devices and ties, and its ranking.\<close>

abbreviation rows_devices :: "PackingListItem list" where
  "rows_devices \<equiv>
    [item ''S1'' ''Da'' ''C1'' 5, item ''S1'' ''Db'' ''C1'' 1, item ''S1'' ''Dc'' ''C1'' 7,
     item ''S1'' ''Dd'' ''C1'' 1, item ''S1'' ''De'' ''C1'' 9, item ''S1'' ''Df'' ''C1'' 4,
     item ''S2'' ''Dg'' ''C2'' 6, item ''S2'' ''Dh'' ''C2'' 8, item ''S2'' ''Di'' ''C2'' 1,
     item ''S2'' ''Dj'' ''C2'' 3, item ''S2'' ''Dk'' ''C2'' 10, item ''S2'' ''Dl'' ''C2'' 11,
     item ''S2'' ''Da'' ''C2'' 2]"

abbreviation ranking_devices :: "DeviceTotal list" where
  "ranking_devices \<equiv>
    [\<lparr>td_name = ''Dl'', td_value = 11\<rparr>, \<lparr>td_name = ''Dk'', td_value = 10\<rparr>,
     \<lparr>td_name = ''De'', td_value = 9\<rparr>, \<lparr>td_name = ''Dh'', td_value = 8\<rparr>,
     \<lparr>td_name = ''Da'', td_value = 7\<rparr>, \<lparr>td_name = ''Dc'', td_value = 7\<rparr>,
     \<lparr>td_name = ''Dg'', td_value = 6\<rparr>, \<lparr>td_name = ''Df'', td_value = 4\<rparr>,
     \<lparr>td_name = ''Dj'', td_value = 3\<rparr>, \<lparr>td_name = ''Db'', td_value = 1\<rparr>]"

section \<open>The loop of renderForceGraph\<close>

lemma remdups_snoc: "remdups (xs @ [x]) = filter (\<lambda>y. y \<noteq> x) (remdups xs) @ [x]"
  by (induction xs) auto

lemma first_seen_Nil: "first_seen [] = []"
  by (simp add: first_seen_def)

lemma first_seen_Cons: "first_seen (x # xs) = x # filter (\<lambda>y. y \<noteq> x) (first_seen xs)"
  by (simp add: first_seen_def remdups_snoc rev_filter)

lemma set_first_seen: "set (first_seen xs) = set xs"
  by (simp add: first_seen_def)

lemma distinct_first_seen: "distinct (first_seen xs)"
  by (simp add: first_seen_def)

lemma foldl_push_new:
  "foldl push_new xs ys = xs @ filter (\<lambda>y. y \<notin> set xs) (first_seen ys)"
proof (induction ys arbitrary: xs)
  case Nil
  show ?case by (simp add: first_seen_def)
next
  case (Cons y ys)
  show ?case
    apply (simp add: Cons.IH first_seen_Cons)
    apply (auto simp: push_new_def intro: filter_cong)
    done
qed

lemma tagged_inj:
  assumes "tagged n" and "tagged m" and "node_id n = node_id m"
  shows "n = m"
  using assms by (cases n; cases m) (auto simp: tagged_def)

lemma tagged_record_nodes: "list_all tagged (record_nodes d)"
  by (simp add: record_nodes_def tagged_def)

lemma forEach_body_push:
  "forEach_body s d = (foldl push_node s (record_nodes d))\<lparr>links := links s @ record_links d\<rparr>"
  by (simp add: forEach_body_def record_nodes_def record_links_def push_node_def Let_def
      sup_id_def dev_id_def cust_id_def)

lemma push_node_wf:
  assumes "wf_state s" and "tagged n"
  shows "wf_state (push_node s n)" and "nodes (push_node s n) = push_new (nodes s) n"
proof -
  have mem: "node_id n \<in> nodeSet s \<longleftrightarrow> n \<in> set (nodes s)"
  proof
    assume "node_id n \<in> nodeSet s"
    then obtain m where m: "m \<in> set (nodes s)" "node_id m = node_id n"
      using assms(1) by (auto simp: wf_state_def)
    then have "tagged m" using assms(1) by (simp add: wf_state_def list_all_iff)
    then have "m = n" using assms(2) m(2) by (rule tagged_inj)
    then show "n \<in> set (nodes s)" using m(1) by simp
  next
    assume "n \<in> set (nodes s)"
    then show "node_id n \<in> nodeSet s" using assms(1) by (simp add: wf_state_def)
  qed
  show "wf_state (push_node s n)"
    using assms by (simp add: push_node_def wf_state_def)
  show "nodes (push_node s n) = push_new (nodes s) n"
    using mem by (simp add: push_node_def push_new_def)
qed

lemma foldl_push_node_wf:
  assumes "wf_state s" and "list_all tagged ns"
  shows "wf_state (foldl push_node s ns) \<and> nodes (foldl push_node s ns) = foldl push_new (nodes s) ns"
  using assms by (induction ns arbitrary: s) (simp_all add: push_node_wf)

lemma wf_state_links: "wf_state (s\<lparr>links := ls\<rparr>) = wf_state s"
  by (simp add: wf_state_def)

lemma forEach_body_wf:
  assumes "wf_state s"
  shows "wf_state (forEach_body s d)"
    and "nodes (forEach_body s d) = foldl push_new (nodes s) (record_nodes d)"
    and "links (forEach_body s d) = links s @ record_links d"
  using foldl_push_node_wf [OF assms tagged_record_nodes, of d]
  by (simp_all add: forEach_body_push wf_state_links)

lemma foldl_forEach_body:
  assumes "wf_state s"
  shows "wf_state (foldl forEach_body s ds)
    \<and> nodes (foldl forEach_body s ds) = foldl push_new (nodes s) (concat (map record_nodes ds))
    \<and> links (foldl forEach_body s ds) = links s @ concat (map record_links ds)"
  using assms by (induction ds arbitrary: s) (simp_all add: forEach_body_wf)

lemma wf_state_init: "wf_state \<lparr>nodes = [], links = [], nodeSet = {}\<rparr>"
  by (simp add: wf_state_def)

text \<open>
  The result in closed form: nothing for the empty collection, and otherwise the nodes of
  the first hundred records in the order of their first occurrence with the links of these
  records in order.
\<close>

lemma renderForceGraph_eq:
  "renderForceGraph theme rs =
    (if rs = [] then None
     else Some (GraphComponent (first_seen (concat (map record_nodes (take 100 rs))))
                 (concat (map record_links (take 100 rs))) theme))"
  using foldl_forEach_body [OF wf_state_init, of "take 100 rs"]
  by (simp add: renderForceGraph_def Let_def foldl_push_new)

lemma length_concat_record_links: "length (concat (map record_links ds)) = 2 * length ds"
  by (induction ds) (simp_all add: record_links_def)

lemma nth_concat_record_links:
  "i < length ds \<Longrightarrow>
    concat (map record_links ds) ! (2 * i) = record_links (ds ! i) ! 0 \<and>
    concat (map record_links ds) ! (2 * i + 1) = record_links (ds ! i) ! 1"
proof (induction ds arbitrary: i)
  case Nil
  then show ?case by simp
next
  case (Cons d ds)
  show ?case
  proof (cases i)
    case 0
    then show ?thesis by (simp add: record_links_def)
  next
    case (Suc j)
    then have "j < length ds" using Cons.prems by simp
    from Cons.IH [OF this] Suc show ?thesis
      by (simp add: record_links_def)
  qed
qed

lemma renderForceGraph_Some:
  assumes "renderForceGraph th rs = Some g"
  shows "props_nodes g = first_seen (concat (map record_nodes (take 100 rs)))"
    and "props_links g = concat (map record_links (take 100 rs))"
    and "rs \<noteq> []"
  using assms by (auto simp: renderForceGraph_eq split: if_splits)

text \<open>The builder returns a graph for every collection but the empty one.\<close>

lemma renderForceGraph_returns: "rs \<noteq> [] \<Longrightarrow> \<exists>g. renderForceGraph th rs = Some g"
  by (simp add: renderForceGraph_eq)

lemma tagged_props_nodes:
  assumes "renderForceGraph th rs = Some g"
  shows "list_all tagged (props_nodes g)"
  using tagged_record_nodes
  by (auto simp: renderForceGraph_Some(1) [OF assms] set_first_seen list_all_iff)

lemma inj_on_node_id: "list_all tagged ns \<Longrightarrow> inj_on node_id (set ns)"
  by (auto simp: inj_on_def list_all_iff intro: tagged_inj)

lemma remdups_map_inj_on: "inj_on f (set xs) \<Longrightarrow> map f (remdups xs) = remdups (map f xs)"
  by (induction xs) (auto simp: inj_on_def)

lemma first_seen_map_inj_on: "inj_on f (set xs) \<Longrightarrow> map f (first_seen xs) = first_seen (map f xs)"
  by (simp add: first_seen_def rev_map [symmetric] remdups_map_inj_on)

lemma filter_single:
  assumes "distinct xs" and "x \<in> set xs" and "\<And>y. y \<in> set xs \<Longrightarrow> P y \<longleftrightarrow> y = x"
  shows "filter P xs = [x]"
  using assms
proof (induction xs)
  case Nil
  then show ?case by simp
next
  case (Cons a xs)
  show ?case
  proof (cases "a = x")
    case True
    then have "\<forall>y\<in>set xs. \<not> P y" using Cons.prems by auto
    then have "filter P xs = []" by (simp add: filter_empty_conv)
    then show ?thesis using True Cons.prems(3) [of a] by simp
  next
    case False
    then have "x \<in> set xs" using Cons.prems(2) by simp
    moreover have "distinct xs" using Cons.prems(1) by simp
    ultimately have "filter P xs = [x]" using Cons.IH Cons.prems(3) by simp
    then show ?thesis using False Cons.prems(3) [of a] by simp
  qed
qed

lemma one_node_per_value:
  assumes g: "renderForceGraph th rs = Some g"
    and d: "d \<in> set (take 100 rs)" and x: "x \<in> set (record_nodes d)"
  shows "filter (\<lambda>n. group n = group x \<and> label n = label x) (props_nodes g) = [x]"
proof (rule filter_single)
  show "distinct (props_nodes g)"
    by (simp add: renderForceGraph_Some(1) [OF g] distinct_first_seen)
  show "x \<in> set (props_nodes g)"
    using d x by (auto simp: renderForceGraph_Some(1) [OF g] set_first_seen)
  fix y assume y: "y \<in> set (props_nodes g)"
  have ty: "tagged y" using tagged_props_nodes [OF g] y by (simp add: list_all_iff)
  have tx: "tagged x" using tagged_record_nodes [of d] x by (simp add: list_all_iff)
  show "(group y = group x \<and> label y = label x) \<longleftrightarrow> y = x"
  proof
    assume "group y = group x \<and> label y = label x"
    then have "node_id y = node_id x" using ty tx by (auto simp: tagged_def)
    with ty tx show "y = x" by (rule tagged_inj)
  qed simp
qed



text \<open>The builder run on the example collections.\<close>

lemma render_rows_shared: "renderForceGraph () rows_shared = Some graph_shared"
  by (simp add: renderForceGraph_def forEach_body_def sup_id_def dev_id_def cust_id_def Let_def)

lemma render_rows_order: "renderForceGraph () rows_order = Some graph_order"
  by (simp add: renderForceGraph_def forEach_body_def sup_id_def dev_id_def cust_id_def Let_def)

section \<open>The device ranking\<close>

lemma topDevices_eq: "topDevices (aggregateData rs) = take 10 (sort_key rank_key (device_totals rs))"
  by (simp add: aggregateData_def device_totals_def)

lemma names_device_totals: "map td_name (device_totals rs) = remdups (map DeviceName rs)"
  by (simp add: device_totals_def comp_def)

lemma distinct_names_ranking: "distinct (map td_name (sort_key rank_key (device_totals rs)))"
proof -
  have "distinct (map td_name (device_totals rs))"
    by (simp add: names_device_totals)
  then have "distinct (device_totals rs)" "inj_on td_name (set (device_totals rs))"
    by (simp_all add: distinct_map)
  then show ?thesis by (simp add: distinct_map)
qed

lemma entry_device_totals_D:
  "e \<in> set (device_totals rs) \<Longrightarrow>
    td_name e \<in> DeviceName ` set rs \<and>
    td_value e = sum_list (map Numbers (filter (\<lambda>r. DeviceName r = td_name e) rs))"
  by (auto simp: device_totals_def units_where_def)

lemma entry_device_totals_I:
  "n \<in> DeviceName ` set rs \<Longrightarrow>
    \<lparr>td_name = n, td_value = sum_list (map Numbers (filter (\<lambda>r. DeviceName r = n) rs))\<rparr>
      \<in> set (device_totals rs)"
  by (auto simp: device_totals_def units_where_def)

lemma rank_key_le:
  "rank_key a \<le> rank_key b \<longleftrightarrow>
    td_value b < td_value a \<or> td_value b = td_value a \<and> td_name a \<le> td_name b"
  by (auto simp: rank_key_def less_eq_prod_simp)

lemma ranking_sorted:
  assumes "i < j" and "j < length (sort_key rank_key (device_totals rs))"
  shows "td_value (sort_key rank_key (device_totals rs) ! j) < td_value (sort_key rank_key (device_totals rs) ! i)
    \<or> td_value (sort_key rank_key (device_totals rs) ! j) = td_value (sort_key rank_key (device_totals rs) ! i)
      \<and> td_name (sort_key rank_key (device_totals rs) ! i) < td_name (sort_key rank_key (device_totals rs) ! j)"
proof -
  let ?full = "sort_key rank_key (device_totals rs)"
  have "sorted (map rank_key ?full)" by (rule sorted_sort_key)
  then have "map rank_key ?full ! i \<le> map rank_key ?full ! j"
    using assms by (intro sorted_nth_mono) simp_all
  then have le: "rank_key (?full ! i) \<le> rank_key (?full ! j)"
    using assms by simp
  have "(map td_name ?full ! i = map td_name ?full ! j) = (i = j)"
    by (rule nth_eq_iff_index_eq) (use assms distinct_names_ranking in simp_all)
  then have "td_name (?full ! i) \<noteq> td_name (?full ! j)"
    using assms by simp
  with le show ?thesis by (auto simp: rank_key_le)
qed

lemma ranking_rows_devices: "topDevices (aggregateData rows_devices) = ranking_devices"
  by (simp add: aggregateData_def units_where_def rank_key_def)

section \<open>The cap of one hundred records\<close>

text \<open>
  C1. The derivation uses the first 100 records only: the builder gives the same result on a
  collection and on its prefix of 100 records; when it returns a graph, the links are the
  two links of each record of the prefix of the first min(100, length) records, in order,
  and their number is 2 * min(100, length). It returns no graph (and so no link) only for
  the empty collection.
\<close>

theorem graph_cap:
  "renderForceGraph th rs = renderForceGraph th (take 100 rs) \<and>
   (case renderForceGraph th rs of
      None \<Rightarrow> rs = []
    | Some g \<Rightarrow>
        props_links g =
          concat (map (\<lambda>d.
            [\<lparr>source = ''SUP:'' @ Suppliername d, target = ''DEV:'' @ DeviceName d, link_value = 1\<rparr>,
             \<lparr>source = ''DEV:'' @ DeviceName d, target = ''CUST:'' @ customer d,
               link_value = Numbers d\<rparr>])
            (take (min 100 (length rs)) rs)) \<and>
        length (props_links g) = 2 * min 100 (length rs))"
proof -
  have len: "length (concat (map record_links ds)) = 2 * length ds" for ds
    by (induction ds) (simp_all add: record_links_def)
  have "take (min 100 (length rs)) rs = take 100 rs"
    by (simp add: min_def)
  moreover have "record_links = (\<lambda>d.
            [\<lparr>source = ''SUP:'' @ Suppliername d, target = ''DEV:'' @ DeviceName d, link_value = 1\<rparr>,
             \<lparr>source = ''DEV:'' @ DeviceName d, target = ''CUST:'' @ customer d,
               link_value = Numbers d\<rparr>])"
    by (rule ext) (simp add: record_links_def)
  ultimately show ?thesis
    using len [of "take 100 rs"] by (simp add: renderForceGraph_eq min.commute)
qed

section \<open>The empty collection\<close>

text \<open>
  C4, as the claim states it, fails for the graph builder: on the empty collection
  \<open>renderForceGraph\<close> takes the guard of line 216 and returns \<open>null\<close>, not a graph with
  empty nodes and links.
\<close>

theorem empty_graph_counterexample:
  "renderForceGraph () [] = None \<and>
   renderForceGraph () [] \<noteq> Some (GraphComponent [] [] ())"
  by (simp add: renderForceGraph_def)

text \<open>
  C4, amended. On the empty collection neither function fails: the aggregate is
  \<open>{totalLines:0, totalUnits:0, uniqueSuppliers:0, uniqueCustomers:0, timeSeries:[],
  topDevices:[]}\<close> (the sum is the integer 0), and the graph builder returns no graph at all.
\<close>

theorem empty_input:
  "aggregateData [] =
     \<lparr>totalLines = 0, totalUnits = 0, uniqueSuppliers = 0, uniqueCustomers = 0,
      timeSeries = [], topDevices = []\<rparr> \<and>
   renderForceGraph th [] = None"
  by (simp add: aggregateData_def renderForceGraph_def count_distinct_def List.map_filter_def)

section \<open>The ids of the nodes\<close>

text \<open>
  C5, as the claim states it, fails: the tags the code writes are \<open>SUP:\<close>, \<open>DEV:\<close> and
  \<open>CUST:\<close>, so the supplier Acme gets the node id \<open>SUP:Acme\<close> and no node has the id
  \<open>supplier:Acme\<close>.
\<close>

theorem node_id_literal_counterexample:
  "renderForceGraph () [item ''Acme'' ''X'' ''C1'' 2] =
     Some (GraphComponent
       [\<lparr>node_id = ''SUP:Acme'', group = ''supplier'', label = ''Acme''\<rparr>,
        \<lparr>node_id = ''DEV:X'', group = ''device'', label = ''X''\<rparr>,
        \<lparr>node_id = ''CUST:C1'', group = ''customer'', label = ''C1''\<rparr>]
       [\<lparr>source = ''SUP:Acme'', target = ''DEV:X'', link_value = 1\<rparr>,
        \<lparr>source = ''DEV:X'', target = ''CUST:C1'', link_value = 2\<rparr>] ()) \<and>
   ''supplier:Acme'' \<notin> set [''SUP:Acme'', ''DEV:X'', ''CUST:C1'']"
  by (simp add: renderForceGraph_def forEach_body_def sup_id_def dev_id_def cust_id_def Let_def)

text \<open>
  C5, amended. The nodes of the graph are exactly, for every record among the first 100, a
  node of group \<open>supplier\<close> whose id is \<open>SUP:\<close> followed by the raw supplier name, a node of
  group \<open>device\<close> whose id is \<open>DEV:\<close> followed by the raw device name, and a node of group
  \<open>customer\<close> whose id is \<open>CUST:\<close> followed by the raw customer; the label is the raw value.
\<close>

theorem node_id_tags:
  assumes "renderForceGraph th rs = Some g"
  shows "set (props_nodes g) =
    (\<Union>d\<in>set (take 100 rs).
      {\<lparr>node_id = ''SUP:'' @ Suppliername d, group = ''supplier'', label = Suppliername d\<rparr>,
       \<lparr>node_id = ''DEV:'' @ DeviceName d, group = ''device'', label = DeviceName d\<rparr>,
       \<lparr>node_id = ''CUST:'' @ customer d, group = ''customer'', label = customer d\<rparr>})"
proof -
  have "props_nodes g = first_seen (concat (map record_nodes (take 100 rs)))"
    using assms by (auto simp: renderForceGraph_eq split: if_splits)
  then show ?thesis
    by (simp add: set_first_seen record_nodes_def)
qed

theorem node_id_tags_witness:
  "renderForceGraph () [item ''Acme'' ''X'' ''C1'' 2] =
     Some (GraphComponent
       [\<lparr>node_id = ''SUP:Acme'', group = ''supplier'', label = ''Acme''\<rparr>,
        \<lparr>node_id = ''DEV:X'', group = ''device'', label = ''X''\<rparr>,
        \<lparr>node_id = ''CUST:C1'', group = ''customer'', label = ''C1''\<rparr>]
       [\<lparr>source = ''SUP:Acme'', target = ''DEV:X'', link_value = 1\<rparr>,
        \<lparr>source = ''DEV:X'', target = ''CUST:C1'', link_value = 2\<rparr>] ()) \<and>
   set [\<lparr>node_id = ''SUP:Acme'', group = ''supplier'', label = ''Acme''\<rparr>,
        \<lparr>node_id = ''DEV:X'', group = ''device'', label = ''X''\<rparr>,
        \<lparr>node_id = ''CUST:C1'', group = ''customer'', label = ''C1''\<rparr>] =
     {\<lparr>node_id = ''SUP:'' @ ''Acme'', group = ''supplier'', label = ''Acme''\<rparr>,
      \<lparr>node_id = ''DEV:'' @ ''X'', group = ''device'', label = ''X''\<rparr>,
      \<lparr>node_id = ''CUST:'' @ ''C1'', group = ''customer'', label = ''C1''\<rparr>}"
proof -
  have h: "renderForceGraph () [item ''Acme'' ''X'' ''C1'' 2] =
     Some (GraphComponent
       [\<lparr>node_id = ''SUP:Acme'', group = ''supplier'', label = ''Acme''\<rparr>,
        \<lparr>node_id = ''DEV:X'', group = ''device'', label = ''X''\<rparr>,
        \<lparr>node_id = ''CUST:C1'', group = ''customer'', label = ''C1''\<rparr>]
       [\<lparr>source = ''SUP:Acme'', target = ''DEV:X'', link_value = 1\<rparr>,
        \<lparr>source = ''DEV:X'', target = ''CUST:C1'', link_value = 2\<rparr>] ())"
    by (simp add: renderForceGraph_def forEach_body_def sup_id_def dev_id_def cust_id_def Let_def)
  show ?thesis
    using h node_id_tags [OF h] by simp
qed

section \<open>The filter with wildcard criteria\<close>

text \<open>
  C6. Filter identity: with the empty supplier, the empty device and both date bounds
  unset, the filter returns the collection it was given, the same records in the same
  order.
\<close>

theorem filter_identity:
  "filterData rs \<lparr>supplier = '''', device = '''', startDate = None, endDate = None\<rparr> = rs"
  by (simp add: filterData_def matches_def)

section \<open>Nodes: one per group and value\<close>

text \<open>
  C2. Nodes are deduplicated by the composite id of tag and raw value. For every collection
  that is not empty the builder returns a graph, and in it: no two nodes share an id; the
  nodes are exactly the supplier, device and customer nodes of the records among the first
  100 (a record beyond the hundredth contributes no node); for every record among the first
  100 there is exactly one node of group supplier with its supplier name as label, exactly
  one of group device with its device name and exactly one of group customer with its
  customer, however many records carry that value, and the id of that node is the tag
  followed by the value; and two nodes of different groups never have the same id, also
  when their raw values are the same string.
\<close>

theorem nodes_deduplicated:
  assumes "rs \<noteq> []"
  shows "\<exists>g. renderForceGraph th rs = Some g \<and>
    distinct (map node_id (props_nodes g)) \<and>
    set (props_nodes g) =
      (\<Union>d\<in>set (take 100 rs).
        {\<lparr>node_id = ''SUP:'' @ Suppliername d, group = ''supplier'', label = Suppliername d\<rparr>,
         \<lparr>node_id = ''DEV:'' @ DeviceName d, group = ''device'', label = DeviceName d\<rparr>,
         \<lparr>node_id = ''CUST:'' @ customer d, group = ''customer'', label = customer d\<rparr>}) \<and>
    (\<forall>d\<in>set (take 100 rs).
      filter (\<lambda>n. group n = ''supplier'' \<and> label n = Suppliername d) (props_nodes g) =
        [\<lparr>node_id = ''SUP:'' @ Suppliername d, group = ''supplier'', label = Suppliername d\<rparr>] \<and>
      filter (\<lambda>n. group n = ''device'' \<and> label n = DeviceName d) (props_nodes g) =
        [\<lparr>node_id = ''DEV:'' @ DeviceName d, group = ''device'', label = DeviceName d\<rparr>] \<and>
      filter (\<lambda>n. group n = ''customer'' \<and> label n = customer d) (props_nodes g) =
        [\<lparr>node_id = ''CUST:'' @ customer d, group = ''customer'', label = customer d\<rparr>]) \<and>
    (\<forall>n\<in>set (props_nodes g). \<forall>m\<in>set (props_nodes g).
      group n \<noteq> group m \<longrightarrow> node_id n \<noteq> node_id m)"
proof -
  obtain g where g: "renderForceGraph th rs = Some g"
    using renderForceGraph_returns [OF assms, of th] by blast
  have "distinct (props_nodes g)"
    by (simp add: renderForceGraph_Some(1) [OF g] distinct_first_seen)
  then have p1: "distinct (map node_id (props_nodes g))"
    using inj_on_node_id [OF tagged_props_nodes [OF g]] by (simp add: distinct_map)
  have p2: "set (props_nodes g) =
      (\<Union>d\<in>set (take 100 rs).
        {\<lparr>node_id = ''SUP:'' @ Suppliername d, group = ''supplier'', label = Suppliername d\<rparr>,
         \<lparr>node_id = ''DEV:'' @ DeviceName d, group = ''device'', label = DeviceName d\<rparr>,
         \<lparr>node_id = ''CUST:'' @ customer d, group = ''customer'', label = customer d\<rparr>})"
    by (simp add: renderForceGraph_Some(1) [OF g] set_first_seen record_nodes_def)
  have p3: "\<forall>d\<in>set (take 100 rs).
      filter (\<lambda>n. group n = ''supplier'' \<and> label n = Suppliername d) (props_nodes g) =
        [\<lparr>node_id = ''SUP:'' @ Suppliername d, group = ''supplier'', label = Suppliername d\<rparr>] \<and>
      filter (\<lambda>n. group n = ''device'' \<and> label n = DeviceName d) (props_nodes g) =
        [\<lparr>node_id = ''DEV:'' @ DeviceName d, group = ''device'', label = DeviceName d\<rparr>] \<and>
      filter (\<lambda>n. group n = ''customer'' \<and> label n = customer d) (props_nodes g) =
        [\<lparr>node_id = ''CUST:'' @ customer d, group = ''customer'', label = customer d\<rparr>]"
  proof (intro ballI conjI)
    fix d assume d: "d \<in> set (take 100 rs)"
    show "filter (\<lambda>n. group n = ''supplier'' \<and> label n = Suppliername d) (props_nodes g) =
          [\<lparr>node_id = ''SUP:'' @ Suppliername d, group = ''supplier'', label = Suppliername d\<rparr>]"
      using one_node_per_value [OF g d, of "record_nodes d ! 0"]
      by (simp add: record_nodes_def)
    show "filter (\<lambda>n. group n = ''device'' \<and> label n = DeviceName d) (props_nodes g) =
          [\<lparr>node_id = ''DEV:'' @ DeviceName d, group = ''device'', label = DeviceName d\<rparr>]"
      using one_node_per_value [OF g d, of "record_nodes d ! 1"]
      by (simp add: record_nodes_def)
    show "filter (\<lambda>n. group n = ''customer'' \<and> label n = customer d) (props_nodes g) =
          [\<lparr>node_id = ''CUST:'' @ customer d, group = ''customer'', label = customer d\<rparr>]"
      using one_node_per_value [OF g d, of "record_nodes d ! 2"]
      by (simp add: record_nodes_def)
  qed
  have p4: "\<forall>n\<in>set (props_nodes g). \<forall>m\<in>set (props_nodes g).
      group n \<noteq> group m \<longrightarrow> node_id n \<noteq> node_id m"
  proof (intro ballI impI)
    fix n m assume "n \<in> set (props_nodes g)" "m \<in> set (props_nodes g)" "group n \<noteq> group m"
    moreover have "list_all tagged (props_nodes g)" by (rule tagged_props_nodes [OF g])
    ultimately have "tagged n" "tagged m" "group n \<noteq> group m" by (simp_all add: list_all_iff)
    then show "node_id n \<noteq> node_id m" by (auto simp: tagged_def)
  qed
  show ?thesis
    by (rule exI [of _ g]) (intro conjI g p1 p2 p3 p4)
qed

theorem nodes_deduplicated_witness:
  "rows_shared \<noteq> [] \<and>
   renderForceGraph () rows_shared = Some graph_shared \<and>
   distinct (map node_id (props_nodes graph_shared)) \<and>
   filter (\<lambda>n. group n = ''supplier'' \<and> label n = ''Acme'') (props_nodes graph_shared) =
     [\<lparr>node_id = ''SUP:Acme'', group = ''supplier'', label = ''Acme''\<rparr>] \<and>
   filter (\<lambda>n. group n = ''device'' \<and> label n = ''X'') (props_nodes graph_shared) =
     [\<lparr>node_id = ''DEV:X'', group = ''device'', label = ''X''\<rparr>] \<and>
   filter (\<lambda>n. group n = ''customer'' \<and> label n = ''Acme'') (props_nodes graph_shared) =
     [\<lparr>node_id = ''CUST:Acme'', group = ''customer'', label = ''Acme''\<rparr>] \<and>
   length (props_nodes graph_shared) = 4 \<and>
   rows_capped \<noteq> [] \<and>
   (\<exists>g. renderForceGraph () rows_capped = Some g \<and>
      set (props_nodes g) =
        {\<lparr>node_id = ''SUP:A'', group = ''supplier'', label = ''A''\<rparr>,
         \<lparr>node_id = ''DEV:X'', group = ''device'', label = ''X''\<rparr>,
         \<lparr>node_id = ''CUST:C1'', group = ''customer'', label = ''C1''\<rparr>} \<and>
      \<lparr>node_id = ''SUP:B'', group = ''supplier'', label = ''B''\<rparr> \<notin> set (props_nodes g))"
proof -
  have s: "rows_shared \<noteq> []" by simp
  have c: "rows_capped \<noteq> []" by simp
  have t: "take 100 rows_capped = replicate 100 (item ''A'' ''X'' ''C1'' 1)" by simp
  from nodes_deduplicated [OF c, of "()"] obtain g where
    g: "renderForceGraph () rows_capped = Some g"
    and n: "set (props_nodes g) =
      (\<Union>d\<in>set (take 100 rows_capped).
        {\<lparr>node_id = ''SUP:'' @ Suppliername d, group = ''supplier'', label = Suppliername d\<rparr>,
         \<lparr>node_id = ''DEV:'' @ DeviceName d, group = ''device'', label = DeviceName d\<rparr>,
         \<lparr>node_id = ''CUST:'' @ customer d, group = ''customer'', label = customer d\<rparr>})"
    by (elim exE conjE)
  have capped: "\<exists>g. renderForceGraph () rows_capped = Some g \<and>
      set (props_nodes g) =
        {\<lparr>node_id = ''SUP:A'', group = ''supplier'', label = ''A''\<rparr>,
         \<lparr>node_id = ''DEV:X'', group = ''device'', label = ''X''\<rparr>,
         \<lparr>node_id = ''CUST:C1'', group = ''customer'', label = ''C1''\<rparr>} \<and>
      \<lparr>node_id = ''SUP:B'', group = ''supplier'', label = ''B''\<rparr> \<notin> set (props_nodes g)"
    using g n unfolding t by (intro exI [of _ g]) simp
  show ?thesis
    using s c capped render_rows_shared nodes_deduplicated [OF s, of "()"] by simp
qed

section \<open>Links: two per record\<close>

text \<open>
  C3. Every record among the first 100 contributes exactly two links, whether or not its
  nodes were already there: for record number i (below the length and below 100) the
  builder returns a graph in which link number 2i goes from the record's supplier node to
  its device node with weight 1, and link number 2i + 1 from its device node to its
  customer node with the record's quantity as weight; the links number 2 * min(100, length),
  so none is merged or dropped and equal records give equal parallel links.
\<close>

theorem two_links_per_record:
  assumes "i < length rs" and "i < 100"
  shows "\<exists>g. renderForceGraph th rs = Some g \<and>
    length (props_links g) = 2 * min 100 (length rs) \<and>
    props_links g ! (2 * i) =
      \<lparr>source = ''SUP:'' @ Suppliername (rs ! i), target = ''DEV:'' @ DeviceName (rs ! i),
        link_value = 1\<rparr> \<and>
    props_links g ! (2 * i + 1) =
      \<lparr>source = ''DEV:'' @ DeviceName (rs ! i), target = ''CUST:'' @ customer (rs ! i),
        link_value = Numbers (rs ! i)\<rparr>"
proof -
  have "rs \<noteq> []" using assms(1) by auto
  then obtain g where g: "renderForceGraph th rs = Some g"
    using renderForceGraph_returns [of rs th] by blast
  have i: "i < length (take 100 rs)" using assms by simp
  have "take 100 rs ! i = rs ! i" using assms(2) by simp
  then have p: "length (props_links g) = 2 * min 100 (length rs) \<and>
    props_links g ! (2 * i) =
      \<lparr>source = ''SUP:'' @ Suppliername (rs ! i), target = ''DEV:'' @ DeviceName (rs ! i),
        link_value = 1\<rparr> \<and>
    props_links g ! (2 * i + 1) =
      \<lparr>source = ''DEV:'' @ DeviceName (rs ! i), target = ''CUST:'' @ customer (rs ! i),
        link_value = Numbers (rs ! i)\<rparr>"
    using nth_concat_record_links [OF i] length_concat_record_links [of "take 100 rs"]
    by (simp add: renderForceGraph_Some(2) [OF g] record_links_def min.commute)
  show ?thesis
    by (rule exI [of _ g]) (rule conjI [OF g p])
qed

theorem two_links_per_record_witness:
  "(1::nat) < length [item ''A'' ''X'' ''C1'' 3, item ''A'' ''X'' ''C1'' 3] \<and> (1::nat) < 100 \<and>
   renderForceGraph () [item ''A'' ''X'' ''C1'' 3, item ''A'' ''X'' ''C1'' 3] =
     Some (GraphComponent
       [\<lparr>node_id = ''SUP:A'', group = ''supplier'', label = ''A''\<rparr>,
        \<lparr>node_id = ''DEV:X'', group = ''device'', label = ''X''\<rparr>,
        \<lparr>node_id = ''CUST:C1'', group = ''customer'', label = ''C1''\<rparr>]
       [\<lparr>source = ''SUP:A'', target = ''DEV:X'', link_value = 1\<rparr>,
        \<lparr>source = ''DEV:X'', target = ''CUST:C1'', link_value = 3\<rparr>,
        \<lparr>source = ''SUP:A'', target = ''DEV:X'', link_value = 1\<rparr>,
        \<lparr>source = ''DEV:X'', target = ''CUST:C1'', link_value = 3\<rparr>] ()) \<and>
   (\<exists>g. renderForceGraph () [item ''A'' ''X'' ''C1'' 3, item ''A'' ''X'' ''C1'' 3] = Some g \<and>
      length (props_links g) = 4 \<and>
      props_links g ! 2 = \<lparr>source = ''SUP:A'', target = ''DEV:X'', link_value = 1\<rparr> \<and>
      props_links g ! 3 = \<lparr>source = ''DEV:X'', target = ''CUST:C1'', link_value = 3\<rparr>)"
proof -
  have h: "renderForceGraph () [item ''A'' ''X'' ''C1'' 3, item ''A'' ''X'' ''C1'' 3] =
     Some (GraphComponent
       [\<lparr>node_id = ''SUP:A'', group = ''supplier'', label = ''A''\<rparr>,
        \<lparr>node_id = ''DEV:X'', group = ''device'', label = ''X''\<rparr>,
        \<lparr>node_id = ''CUST:C1'', group = ''customer'', label = ''C1''\<rparr>]
       [\<lparr>source = ''SUP:A'', target = ''DEV:X'', link_value = 1\<rparr>,
        \<lparr>source = ''DEV:X'', target = ''CUST:C1'', link_value = 3\<rparr>,
        \<lparr>source = ''SUP:A'', target = ''DEV:X'', link_value = 1\<rparr>,
        \<lparr>source = ''DEV:X'', target = ''CUST:C1'', link_value = 3\<rparr>] ())"
    by (simp add: renderForceGraph_def forEach_body_def sup_id_def dev_id_def cust_id_def Let_def)
  have i: "(1::nat) < length [item ''A'' ''X'' ''C1'' 3, item ''A'' ''X'' ''C1'' 3]" by simp
  have c: "(1::nat) < 100" by simp
  from two_links_per_record [OF i c, of "()"] obtain g where
    g: "renderForceGraph () [item ''A'' ''X'' ''C1'' 3, item ''A'' ''X'' ''C1'' 3] = Some g"
    and l: "length (props_links g) =
      2 * min 100 (length [item ''A'' ''X'' ''C1'' 3, item ''A'' ''X'' ''C1'' 3])"
    and l2: "props_links g ! (2 * 1) =
      \<lparr>source = ''SUP:'' @ Suppliername ([item ''A'' ''X'' ''C1'' 3, item ''A'' ''X'' ''C1'' 3] ! 1),
        target = ''DEV:'' @ DeviceName ([item ''A'' ''X'' ''C1'' 3, item ''A'' ''X'' ''C1'' 3] ! 1),
        link_value = 1\<rparr>"
    and l3: "props_links g ! (2 * 1 + 1) =
      \<lparr>source = ''DEV:'' @ DeviceName ([item ''A'' ''X'' ''C1'' 3, item ''A'' ''X'' ''C1'' 3] ! 1),
        target = ''CUST:'' @ customer ([item ''A'' ''X'' ''C1'' 3, item ''A'' ''X'' ''C1'' 3] ! 1),
        link_value = Numbers ([item ''A'' ''X'' ''C1'' 3, item ''A'' ''X'' ''C1'' 3] ! 1)\<rparr>"
    by (elim exE conjE)
  have "\<exists>g. renderForceGraph () [item ''A'' ''X'' ''C1'' 3, item ''A'' ''X'' ''C1'' 3] = Some g \<and>
      length (props_links g) = 4 \<and>
      props_links g ! 2 = \<lparr>source = ''SUP:A'', target = ''DEV:X'', link_value = 1\<rparr> \<and>
      props_links g ! 3 = \<lparr>source = ''DEV:X'', target = ''CUST:C1'', link_value = 3\<rparr>"
    using g l l2 l3 by (intro exI [of _ g]) simp
  with h i c show ?thesis by simp
qed

section \<open>The order of the nodes\<close>

text \<open>
  C8. The nodes come in first-seen order: for every collection that is not empty the
  builder returns a graph whose list of nodes is, scanning the first 100 records in input
  order and within a record supplier, then device, then customer, the list of the nodes
  referred to, each at the place of its first occurrence (\<open>first_seen\<close>, characterised by
  \<open>first_seen_Nil\<close> and \<open>first_seen_Cons\<close>), and so is the list of their ids. Running the
  builder again, on this collection or on any collection with the same first 100 records,
  gives the same list of nodes.
\<close>

theorem node_order_first_seen:
  assumes "rs \<noteq> []"
  shows "\<exists>g. renderForceGraph th rs = Some g \<and>
    props_nodes g =
      first_seen (concat (map (\<lambda>d.
        [\<lparr>node_id = ''SUP:'' @ Suppliername d, group = ''supplier'', label = Suppliername d\<rparr>,
         \<lparr>node_id = ''DEV:'' @ DeviceName d, group = ''device'', label = DeviceName d\<rparr>,
         \<lparr>node_id = ''CUST:'' @ customer d, group = ''customer'', label = customer d\<rparr>])
        (take 100 rs))) \<and>
    map node_id (props_nodes g) =
      first_seen (concat (map (\<lambda>d.
        [''SUP:'' @ Suppliername d, ''DEV:'' @ DeviceName d, ''CUST:'' @ customer d])
        (take 100 rs))) \<and>
    (\<forall>rs'. take 100 rs' = take 100 rs \<longrightarrow>
      map_option props_nodes (renderForceGraph th rs') = Some (props_nodes g))"
proof -
  obtain g where g: "renderForceGraph th rs = Some g"
    using renderForceGraph_returns [OF assms, of th] by blast
  let ?ns = "concat (map record_nodes (take 100 rs))"
  have nodes: "props_nodes g = first_seen ?ns"
    by (rule renderForceGraph_Some(1) [OF g])
  have "list_all tagged ?ns"
    using tagged_record_nodes by (auto simp: list_all_iff)
  then have "inj_on node_id (set ?ns)" by (rule inj_on_node_id)
  then have "map node_id (first_seen ?ns) = first_seen (map node_id ?ns)"
    by (rule first_seen_map_inj_on)
  moreover have "map node_id ?ns = concat (map (\<lambda>d.
        [''SUP:'' @ Suppliername d, ''DEV:'' @ DeviceName d, ''CUST:'' @ customer d])
        (take 100 rs))"
    by (simp add: map_concat record_nodes_def comp_def)
  ultimately have p2: "map node_id (props_nodes g) =
      first_seen (concat (map (\<lambda>d.
        [''SUP:'' @ Suppliername d, ''DEV:'' @ DeviceName d, ''CUST:'' @ customer d])
        (take 100 rs)))"
    using nodes by simp
  have "record_nodes = (\<lambda>d.
        [\<lparr>node_id = ''SUP:'' @ Suppliername d, group = ''supplier'', label = Suppliername d\<rparr>,
         \<lparr>node_id = ''DEV:'' @ DeviceName d, group = ''device'', label = DeviceName d\<rparr>,
         \<lparr>node_id = ''CUST:'' @ customer d, group = ''customer'', label = customer d\<rparr>])"
    by (rule ext) (simp add: record_nodes_def)
  then have p1: "props_nodes g =
      first_seen (concat (map (\<lambda>d.
        [\<lparr>node_id = ''SUP:'' @ Suppliername d, group = ''supplier'', label = Suppliername d\<rparr>,
         \<lparr>node_id = ''DEV:'' @ DeviceName d, group = ''device'', label = DeviceName d\<rparr>,
         \<lparr>node_id = ''CUST:'' @ customer d, group = ''customer'', label = customer d\<rparr>])
        (take 100 rs)))"
    using nodes by simp
  have p3: "\<forall>rs'. take 100 rs' = take 100 rs \<longrightarrow>
      map_option props_nodes (renderForceGraph th rs') = Some (props_nodes g)"
  proof (intro allI impI)
    fix rs' assume t: "take 100 rs' = take 100 rs"
    have "take 100 rs \<noteq> []" using assms by simp
    then have "rs' \<noteq> []" using t by auto
    then show "map_option props_nodes (renderForceGraph th rs') = Some (props_nodes g)"
      by (simp add: renderForceGraph_eq t nodes)
  qed
  show ?thesis
    by (rule exI [of _ g]) (intro conjI g p1 p2 p3)
qed

theorem node_order_first_seen_witness:
  "rows_order \<noteq> [] \<and>
   renderForceGraph () rows_order = Some graph_order \<and>
   map node_id (props_nodes graph_order) =
     first_seen [''SUP:B'', ''DEV:X'', ''CUST:C1'', ''SUP:A'', ''DEV:X'', ''CUST:C1'',
       ''SUP:B'', ''DEV:Y'', ''CUST:C0''] \<and>
   first_seen [''SUP:B'', ''DEV:X'', ''CUST:C1'', ''SUP:A'', ''DEV:X'', ''CUST:C1'',
       ''SUP:B'', ''DEV:Y'', ''CUST:C0''] =
     [''SUP:B'', ''DEV:X'', ''CUST:C1'', ''SUP:A'', ''DEV:Y'', ''CUST:C0''] \<and>
   map_option props_nodes (renderForceGraph () rows_order) = Some (props_nodes graph_order)"
proof -
  have s: "rows_order \<noteq> []" by simp
  from node_order_first_seen [OF s, of "()"] obtain g where
    g: "renderForceGraph () rows_order = Some g"
    and ids: "map node_id (props_nodes g) =
      first_seen (concat (map (\<lambda>d.
        [''SUP:'' @ Suppliername d, ''DEV:'' @ DeviceName d, ''CUST:'' @ customer d])
        (take 100 rows_order)))"
    and re: "\<forall>rs'. take 100 rs' = take 100 rows_order \<longrightarrow>
      map_option props_nodes (renderForceGraph () rs') = Some (props_nodes g)"
    by (elim exE conjE)
  have eq: "g = graph_order" using g render_rows_order by simp
  have "map_option props_nodes (renderForceGraph () rows_order) = Some (props_nodes g)"
    using re [rule_format, of rows_order] by simp
  with s ids eq render_rows_order show ?thesis by (simp add: first_seen_def)
qed

section \<open>Referential integrity of the links\<close>

text \<open>
  C9. Every link of the graph has a source and a target that are the ids of nodes of the
  graph.
\<close>

theorem link_endpoints_are_nodes:
  assumes "renderForceGraph th rs = Some g"
  shows "\<forall>l\<in>set (props_links g).
    source l \<in> node_id ` set (props_nodes g) \<and> target l \<in> node_id ` set (props_nodes g)"
proof
  fix l assume "l \<in> set (props_links g)"
  then obtain d where d: "d \<in> set (take 100 rs)" "l \<in> set (record_links d)"
    by (auto simp: renderForceGraph_Some(2) [OF assms])
  have "set (record_nodes d) \<subseteq> set (props_nodes g)"
    using d(1) by (auto simp: renderForceGraph_Some(1) [OF assms] set_first_seen)
  then have "node_id ` set (record_nodes d) \<subseteq> node_id ` set (props_nodes g)"
    by (rule image_mono)
  moreover have "source l \<in> node_id ` set (record_nodes d) \<and> target l \<in> node_id ` set (record_nodes d)"
    using d(2) by (auto simp: record_links_def record_nodes_def)
  ultimately show "source l \<in> node_id ` set (props_nodes g) \<and> target l \<in> node_id ` set (props_nodes g)"
    by blast
qed

theorem link_endpoints_are_nodes_witness:
  "renderForceGraph () rows_shared = Some graph_shared \<and>
   source (props_links graph_shared ! 3) \<in> node_id ` set (props_nodes graph_shared) \<and>
   target (props_links graph_shared ! 3) \<in> node_id ` set (props_nodes graph_shared) \<and>
   props_links graph_shared ! 3 \<in> set (props_links graph_shared)"
  using render_rows_shared link_endpoints_are_nodes [OF render_rows_shared] by simp

section \<open>Empty field values\<close>



section \<open>The top devices\<close>

text \<open>
  C7. The device ranking of the aggregate has at most 10 entries (as many as there are
  distinct device names, if fewer), one per device name; the value of an entry is the sum
  of the quantities of the records with that device name; every entry is followed by one
  of smaller or equal value, and of a greater name when the values are equal; and a device
  left out ranks after every entry: its sum is smaller, or equal with a greater name.
\<close>

theorem top_devices_ranked:
  "length (topDevices (aggregateData rs)) \<le> 10 \<and>
   length (topDevices (aggregateData rs)) = min 10 (card (DeviceName ` set rs)) \<and>
   distinct (map td_name (topDevices (aggregateData rs))) \<and>
   (\<forall>e\<in>set (topDevices (aggregateData rs)).
      td_name e \<in> DeviceName ` set rs \<and>
      td_value e = sum_list (map Numbers (filter (\<lambda>r. DeviceName r = td_name e) rs))) \<and>
   (\<forall>i. Suc i < length (topDevices (aggregateData rs)) \<longrightarrow>
      td_value (topDevices (aggregateData rs) ! Suc i) \<le> td_value (topDevices (aggregateData rs) ! i) \<and>
      (td_value (topDevices (aggregateData rs) ! Suc i) = td_value (topDevices (aggregateData rs) ! i) \<longrightarrow>
        td_name (topDevices (aggregateData rs) ! i) < td_name (topDevices (aggregateData rs) ! Suc i))) \<and>
   (\<forall>n\<in>DeviceName ` set rs. n \<notin> td_name ` set (topDevices (aggregateData rs)) \<longrightarrow>
      (\<forall>e\<in>set (topDevices (aggregateData rs)).
         sum_list (map Numbers (filter (\<lambda>r. DeviceName r = n) rs)) < td_value e \<or>
         sum_list (map Numbers (filter (\<lambda>r. DeviceName r = n) rs)) = td_value e \<and> td_name e < n))"
proof -
  let ?full = "sort_key rank_key (device_totals rs)"
  let ?td = "topDevices (aggregateData rs)"
  have td: "?td = take 10 ?full" by (rule topDevices_eq)
  have len_full: "length (device_totals rs) = card (DeviceName ` set rs)"
    using arg_cong [OF names_device_totals [of rs], of length]
    by (simp add: length_remdups_card_conv)
  have len: "length ?td = min 10 (card (DeviceName ` set rs))"
    by (simp add: td len_full min.commute)
  have dist: "distinct (map td_name ?td)"
    using distinct_names_ranking [of rs] by (simp add: td take_map [symmetric] distinct_take)
  have sub: "set ?td \<subseteq> set (device_totals rs)"
    using set_take_subset [of 10 ?full] by (simp add: td)
  have entries: "\<forall>e\<in>set ?td. td_name e \<in> DeviceName ` set rs \<and>
      td_value e = sum_list (map Numbers (filter (\<lambda>r. DeviceName r = td_name e) rs))"
  proof
    fix e assume "e \<in> set ?td"
    then have "e \<in> set (device_totals rs)" using sub by blast
    then show "td_name e \<in> DeviceName ` set rs \<and>
      td_value e = sum_list (map Numbers (filter (\<lambda>r. DeviceName r = td_name e) rs))"
      by (rule entry_device_totals_D)
  qed
  have adj: "\<forall>i. Suc i < length ?td \<longrightarrow>
      td_value (?td ! Suc i) \<le> td_value (?td ! i) \<and>
      (td_value (?td ! Suc i) = td_value (?td ! i) \<longrightarrow> td_name (?td ! i) < td_name (?td ! Suc i))"
  proof (intro allI impI)
    fix i assume i: "Suc i < length ?td"
    then have "Suc i < length ?full" "Suc i < 10" by (simp_all add: td)
    then have "?td ! i = ?full ! i" "?td ! Suc i = ?full ! Suc i" by (simp_all add: td)
    then show "td_value (?td ! Suc i) \<le> td_value (?td ! i) \<and>
      (td_value (?td ! Suc i) = td_value (?td ! i) \<longrightarrow> td_name (?td ! i) < td_name (?td ! Suc i))"
      using ranking_sorted [of i "Suc i" rs] \<open>Suc i < length ?full\<close> by auto
  qed
  have top: "\<forall>n\<in>DeviceName ` set rs. n \<notin> td_name ` set ?td \<longrightarrow>
      (\<forall>e\<in>set ?td.
         sum_list (map Numbers (filter (\<lambda>r. DeviceName r = n) rs)) < td_value e \<or>
         sum_list (map Numbers (filter (\<lambda>r. DeviceName r = n) rs)) = td_value e \<and> td_name e < n)"
  proof (intro ballI impI)
    fix n e
    assume n: "n \<in> DeviceName ` set rs" and out: "n \<notin> td_name ` set ?td" and e: "e \<in> set ?td"
    let ?en = "\<lparr>td_name = n, td_value = sum_list (map Numbers (filter (\<lambda>r. DeviceName r = n) rs))\<rparr>"
    have "?en \<in> set (device_totals rs)" using n by (rule entry_device_totals_I)
    then have "?en \<in> set ?full" by simp
    then obtain j where j: "j < length ?full" "?full ! j = ?en"
      unfolding in_set_conv_nth by blast
    have "\<not> j < 10"
    proof
      assume "j < 10"
      then have "?td ! j = ?en" "j < length ?td" using j by (simp_all add: td)
      then have "?en \<in> set ?td" by (metis nth_mem)
      then have "td_name ?en \<in> td_name ` set ?td" by (rule imageI)
      then show False using out by simp
    qed
    obtain i where i: "i < length ?td" "?td ! i = e"
      using e unfolding in_set_conv_nth by blast
    then have "i < 10" "i < length ?full" "?full ! i = e" by (simp_all add: td)
    then have "i < j" using \<open>\<not> j < 10\<close> by simp
    from ranking_sorted [OF this j(1)] show
      "sum_list (map Numbers (filter (\<lambda>r. DeviceName r = n) rs)) < td_value e \<or>
         sum_list (map Numbers (filter (\<lambda>r. DeviceName r = n) rs)) = td_value e \<and> td_name e < n"
      by (simp add: j(2) \<open>?full ! i = e\<close>)
  qed
  from len dist entries adj top show ?thesis by simp
qed

theorem top_devices_ranked_witness:
  "topDevices (aggregateData rows_devices) = ranking_devices \<and>
   length ranking_devices = 10 \<and>
   Suc 4 < length ranking_devices \<and>
   td_value (ranking_devices ! Suc 4) = td_value (ranking_devices ! 4) \<and>
   td_name (ranking_devices ! 4) < td_name (ranking_devices ! Suc 4) \<and>
   ''Dd'' \<in> DeviceName ` set rows_devices \<and>
   ''Dd'' \<notin> td_name ` set ranking_devices \<and>
   \<lparr>td_name = ''Db'', td_value = 1\<rparr> \<in> set ranking_devices \<and>
   sum_list (map Numbers (filter (\<lambda>r. DeviceName r = ''Dd'') rows_devices)) = 1 \<and>
   ''Db'' < ''Dd''"
proof -
  note ranked = top_devices_ranked [of rows_devices, unfolded ranking_rows_devices]
  from ranked have len: "length ranking_devices \<le> 10"
    by (elim conjE)
  from ranked have adj: "\<forall>i. Suc i < length ranking_devices \<longrightarrow>
      td_value (ranking_devices ! Suc i) \<le> td_value (ranking_devices ! i) \<and>
      (td_value (ranking_devices ! Suc i) = td_value (ranking_devices ! i) \<longrightarrow>
        td_name (ranking_devices ! i) < td_name (ranking_devices ! Suc i))"
    by (elim conjE)
  from ranked have top: "\<forall>n\<in>DeviceName ` set rows_devices. n \<notin> td_name ` set ranking_devices \<longrightarrow>
      (\<forall>e\<in>set ranking_devices.
         sum_list (map Numbers (filter (\<lambda>r. DeviceName r = n) rows_devices)) < td_value e \<or>
         sum_list (map Numbers (filter (\<lambda>r. DeviceName r = n) rows_devices)) = td_value e \<and> td_name e < n)"
    by (elim conjE)
  have i: "Suc 4 < length ranking_devices" by simp
  have n: "''Dd'' \<in> DeviceName ` set rows_devices" by simp
  have out: "''Dd'' \<notin> td_name ` set ranking_devices" by simp
  have e: "\<lparr>td_name = ''Db'', td_value = 1\<rparr> \<in> set ranking_devices" by simp
  have s: "sum_list (map Numbers (filter (\<lambda>r. DeviceName r = ''Dd'') rows_devices)) = 1" by simp
  from adj [rule_format, OF i] top [rule_format, OF n out e] len i n out e s ranking_rows_devices
  show ?thesis by simp
qed

end
